theory Spec2Isabelle
  imports Complex_Main "HOL-Library.Word"
begin

section \<open>Image buffers\<close>

text \<open>
  The editor keeps every image as the array that \<^verbatim>\<open>cv2.imread\<close> returns: shape
  \<^verbatim>\<open>(h, w, 3)\<close>, unsigned 8-bit samples, channel order B, G, R. The model is a list of
  \<open>h\<close> rows, each a list of \<open>w\<close> pixels. No function of the program writes into an
  array in place (every cv2 call and every \<^verbatim>\<open>copy()\<close> returns a fresh array), so arrays
  are plain values here and \<^verbatim>\<open>img.copy()\<close> is the identity.
\<close>

type_synonym sample = "8 word"
type_synonym pixel = "sample \<times> sample \<times> sample"
type_synonym image = "pixel list list"
type_synonym gray_image = "sample list list"

definition height :: "'a list list \<Rightarrow> nat" where
  "height img = length img"

definition width :: "'a list list \<Rightarrow> nat" where
  "width img = (case img of [] \<Rightarrow> 0 | r # _ \<Rightarrow> length r)"

text \<open>A decoded image is rectangular and has at least one row and one column.\<close>

definition wf_image :: "'a list list \<Rightarrow> bool" where
  "wf_image img = (0 < height img \<and> 0 < width img \<and> list_all (\<lambda>r. length r = width img) img)"

text \<open>
  The exceptions that the modelled code can raise: \<^verbatim>\<open>ValueError\<close> from
  \<^verbatim>\<open>ImageProcessor.load\<close>, \<^verbatim>\<open>cv2.error\<close> from an OpenCV call,
  \<^verbatim>\<open>AttributeError\<close> from a method call on \<^verbatim>\<open>None\<close>, and \<^verbatim>\<open>OverflowError\<close> from a
  division whose quotient is too large for a float.
\<close>

datatype error = ValueError | CvError | AttributeError | OverflowError

section \<open>ImageHistory\<close>

text \<open>Python lists used as stacks: \<^verbatim>\<open>append\<close> adds at the end, \<^verbatim>\<open>pop()\<close> takes the last element.\<close>

record ImageHistory =
  undo_stack :: "image list"
  redo_stack :: "image list"

definition history_init :: ImageHistory where
  "history_init = \<lparr>undo_stack = [], redo_stack = []\<rparr>"

definition history_reset :: "ImageHistory \<Rightarrow> ImageHistory" where
  "history_reset h = h\<lparr>undo_stack := [], redo_stack := []\<rparr>"

definition save_state :: "image option \<Rightarrow> ImageHistory \<Rightarrow> ImageHistory" where
  "save_state img h =
     (case img of
        None \<Rightarrow> h
      | Some i \<Rightarrow> h\<lparr>undo_stack := undo_stack h @ [i], redo_stack := []\<rparr>)"

text \<open>
  \<^verbatim>\<open>undo(current_img)\<close> and \<^verbatim>\<open>redo(current_img)\<close> return the new current image together
  with the updated history. With a non-empty stack the code first evaluates
  \<^verbatim>\<open>current_img.copy()\<close>, which raises on \<^verbatim>\<open>None\<close> before any stack is touched.
\<close>

definition history_undo :: "image option \<Rightarrow> ImageHistory \<Rightarrow> error + (image option \<times> ImageHistory)" where
  "history_undo current_img h =
     (if undo_stack h \<noteq> [] then
        (case current_img of
           None \<Rightarrow> Inl AttributeError
         | Some c \<Rightarrow>
             Inr (Some (last (undo_stack h)),
                  h\<lparr>redo_stack := redo_stack h @ [c], undo_stack := butlast (undo_stack h)\<rparr>))
      else Inr (current_img, h))"

definition history_redo :: "image option \<Rightarrow> ImageHistory \<Rightarrow> error + (image option \<times> ImageHistory)" where
  "history_redo current_img h =
     (if redo_stack h \<noteq> [] then
        (case current_img of
           None \<Rightarrow> Inl AttributeError
         | Some c \<Rightarrow>
             Inr (Some (last (redo_stack h)),
                  h\<lparr>undo_stack := undo_stack h @ [c], redo_stack := butlast (redo_stack h)\<rparr>))
      else Inr (current_img, h))"

section \<open>ImageProcessor: state and loading\<close>

record ImageProcessor =
  current_cv_image :: "image option"
  original_reference :: "image option"

definition processor_init :: ImageProcessor where
  "processor_init = \<lparr>current_cv_image = None, original_reference = None\<rparr>"

text \<open>
  \<^verbatim>\<open>load\<close> takes the decoder \<^verbatim>\<open>cv2.imread\<close> as a parameter: a function from a path to
  an image, or to \<^verbatim>\<open>None\<close> when the file cannot be decoded. The field
  \<^verbatim>\<open>current_cv_image\<close> is assigned before the result is tested, so the processor after
  the call is returned next to the result also when the call raises.
\<close>

definition load :: "(string \<Rightarrow> image option) \<Rightarrow> string \<Rightarrow> ImageProcessor
    \<Rightarrow> ImageProcessor \<times> (error + image)" where
  "load imread path p =
     (let p1 = p\<lparr>current_cv_image := imread path\<rparr> in
      case current_cv_image p1 of
        None \<Rightarrow> (p1, Inl ValueError)
      | Some img \<Rightarrow> (p1\<lparr>original_reference := Some img\<rparr>, Inr img))"

section \<open>ImageEditorApp: the session\<close>

record ImageEditorApp =
  processor :: ImageProcessor
  history :: ImageHistory
  current_path :: "string option"

definition app_init :: ImageEditorApp where
  "app_init = \<lparr>processor = processor_init, history = history_init, current_path = None\<rparr>"

text \<open>
  What a handler of the application did, as its caller sees it: it ran to its end
  (\<open>Completed\<close>), it returned at once without any effect (\<open>Ignored\<close>: a cancelled dialog, or
  undo and redo with no image), it showed \<^verbatim>\<open>messagebox.showerror\<close> with the given title
  and message, or an exception left it.
\<close>

datatype outcome = Completed | Ignored | ShowError string string | Raised error

definition error_text :: "error \<Rightarrow> string" where
  "error_text e =
     (case e of
        ValueError \<Rightarrow> ''Failed to load image. Please choose a valid image file.''
      | CvError \<Rightarrow> ''cv2.error''
      | AttributeError \<Rightarrow> ''AttributeError''
      | OverflowError \<Rightarrow> ''integer division result too large for a float'')"

text \<open>
  \<^verbatim>\<open>process_with_loading(operation)\<close>: the operation is a method of the processor that
  reads its fields and returns its result, an image or \<^verbatim>\<open>None\<close>, or raises. When it
  raises, the exception leaves the handler through \<^verbatim>\<open>finally\<close> before \<^verbatim>\<open>save_state\<close> and
  the assignment are reached. A result \<^verbatim>\<open>None\<close> is stored like an image, and then
  \<^verbatim>\<open>display\<close> raises on it, in \<^verbatim>\<open>cv2.cvtColor\<close>.
\<close>

definition process_with_loading :: "(ImageProcessor \<Rightarrow> error + image option) \<Rightarrow> ImageEditorApp
    \<Rightarrow> ImageEditorApp \<times> outcome" where
  "process_with_loading operation s =
     (if current_cv_image (processor s) = None then
        (s, ShowError ''No image'' ''Please open an image first.'')
      else
        (case operation (processor s) of
           Inl e \<Rightarrow> (s, Raised e)
         | Inr new_img \<Rightarrow>
             (s\<lparr>history := save_state (current_cv_image (processor s)) (history s),
                processor := (processor s)\<lparr>current_cv_image := new_img\<rparr>\<rparr>,
              case new_img of None \<Rightarrow> Raised CvError | Some _ \<Rightarrow> Completed)))"

text \<open>
  \<^verbatim>\<open>open_image\<close>: the path is what the file dialog returned (empty when cancelled). Any
  exception of \<^verbatim>\<open>load\<close> is caught and shown; the assignments that \<^verbatim>\<open>load\<close> made before
  raising stay.
\<close>

definition open_image :: "(string \<Rightarrow> image option) \<Rightarrow> string \<Rightarrow> ImageEditorApp
    \<Rightarrow> ImageEditorApp \<times> outcome" where
  "open_image imread path s =
     (if path = [] then (s, Ignored)
      else
        (case load imread path (processor s) of
           (p1, Inl e) \<Rightarrow> (s\<lparr>processor := p1\<rparr>, ShowError ''Open failed'' (error_text e))
         | (p1, Inr img) \<Rightarrow>
             (s\<lparr>processor := p1, current_path := Some path, history := history_reset (history s)\<rparr>,
              Completed)))"

definition app_undo :: "ImageEditorApp \<Rightarrow> ImageEditorApp \<times> outcome" where
  "app_undo s =
     (if current_cv_image (processor s) = None then (s, Ignored)
      else
        (case history_undo (current_cv_image (processor s)) (history s) of
           Inl e \<Rightarrow> (s, Raised e)
         | Inr (img, h) \<Rightarrow>
             (s\<lparr>history := h, processor := (processor s)\<lparr>current_cv_image := img\<rparr>\<rparr>, Completed)))"

definition app_redo :: "ImageEditorApp \<Rightarrow> ImageEditorApp \<times> outcome" where
  "app_redo s =
     (if current_cv_image (processor s) = None then (s, Ignored)
      else
        (case history_redo (current_cv_image (processor s)) (history s) of
           Inl e \<Rightarrow> (s, Raised e)
         | Inr (img, h) \<Rightarrow>
             (s\<lparr>history := h, processor := (processor s)\<lparr>current_cv_image := img\<rparr>\<rparr>, Completed)))"

section \<open>OpenCV operations used by the processor\<close>

text \<open>
  The transforms of \<^verbatim>\<open>ImageProcessor\<close> are single calls into OpenCV. The definitions
  of this section follow the behaviour that the OpenCV reference documents for 8-bit,
  3-channel images; everything above them is the code of the editor itself.
\<close>

subsection \<open>Geometry: transpose, flip, rotate\<close>

text \<open>\<^verbatim>\<open>cv2.transpose\<close>: \<open>dst(i, j) = src(j, i)\<close>.\<close>

definition cv_transpose :: "'a list list \<Rightarrow> 'a list list" where
  "cv_transpose src = map (\<lambda>j. map (\<lambda>row. row ! j) src) [0..<width src]"

text \<open>
  \<^verbatim>\<open>cv2.flip\<close>: code 0 flips around the x-axis (the rows change places), a positive
  code around the y-axis (every row is reversed), a negative code around both.
\<close>

definition cv_flip :: "'a list list \<Rightarrow> int \<Rightarrow> 'a list list" where
  "cv_flip src flipCode =
     (if flipCode = 0 then rev src
      else if 0 < flipCode then map rev src
      else rev (map rev src))"

text \<open>
  \<^verbatim>\<open>cv2.rotate\<close> with the three codes that the toolbar passes. OpenCV computes the
  quarter turns as a transposition followed by a flip, and the half turn as a flip around
  both axes.
\<close>

datatype rotate_code = ROTATE_90_CLOCKWISE | ROTATE_180 | ROTATE_90_COUNTERCLOCKWISE

fun cv_rotate :: "'a list list \<Rightarrow> rotate_code \<Rightarrow> 'a list list" where
  "cv_rotate src ROTATE_90_CLOCKWISE = cv_flip (cv_transpose src) 1"
| "cv_rotate src ROTATE_180 = cv_flip src (- 1)"
| "cv_rotate src ROTATE_90_COUNTERCLOCKWISE = cv_flip (cv_transpose src) 0"

subsection \<open>Colour conversion\<close>

text \<open>
  \<^verbatim>\<open>cv2.cvtColor(src, COLOR_BGR2GRAY)\<close> on 8-bit samples:
  \<open>Y = 0.299 R + 0.587 G + 0.114 B\<close>, computed by OpenCV in 15-bit fixed point with
  rounding: \<open>(B * 3735 + G * 19235 + R * 9798 + 2^14) >> 15\<close>. The three weights add up
  to \<open>2^15\<close>. \<^verbatim>\<open>COLOR_GRAY2BGR\<close> copies the sample into the three channels.
\<close>

definition BY15 :: nat where "BY15 = 3735"
definition GY15 :: nat where "GY15 = 19235"
definition RY15 :: nat where "RY15 = 9798"

definition bgr2gray :: "pixel \<Rightarrow> sample" where
  "bgr2gray px =
     (case px of (b, g, r) \<Rightarrow>
        of_nat ((unat b * BY15 + unat g * GY15 + unat r * RY15 + 2 ^ 14) div 2 ^ 15))"

definition gray2bgr :: "sample \<Rightarrow> pixel" where
  "gray2bgr v = (v, v, v)"

definition cvtColor_BGR2GRAY :: "image \<Rightarrow> gray_image" where
  "cvtColor_BGR2GRAY src = map (map bgr2gray) src"

definition cvtColor_GRAY2BGR :: "gray_image \<Rightarrow> image" where
  "cvtColor_GRAY2BGR src = map (map gray2bgr) src"

subsection \<open>Scaling with absolute value\<close>

text \<open>
  \<^verbatim>\<open>cv2.convertScaleAbs(src, alpha, beta)\<close>: on every sample, scaling, absolute value,
  conversion to unsigned 8 bits: \<open>dst = saturate_cast<uchar>(|src * alpha + beta|)\<close>.
  \<open>saturate_cast\<close> rounds to the nearest integer, a tie to the even one, and then cuts
  the value to \<open>0..255\<close>. OpenCV converts \<open>alpha\<close> and \<open>beta\<close> to single precision and
  evaluates \<open>src * alpha + beta\<close> in single precision.
\<close>

definition cvRound :: "real \<Rightarrow> int" where
  "cvRound x =
     (let f = \<lfloor>x\<rfloor>; d = x - of_int f in
      if d < 1 / 2 then f
      else if 1 / 2 < d then f + 1
      else if even f then f else f + 1)"

definition saturate_cast_uchar :: "real \<Rightarrow> sample" where
  "saturate_cast_uchar x =
     (let i = cvRound x in
      if i < 0 then 0 else if 255 < i then 255 else word_of_int i)"

text \<open>
  Single precision: a real number is rounded to the nearest number \<open>m * 2^e\<close> with
  \<open>|m| \<le> 2^24\<close> and \<open>e \<ge> -149\<close>, a tie to the even \<open>m\<close>. \<open>f32_exponent\<close> finds \<open>e\<close> for a
  positive \<open>x\<close> by halving and doubling until \<open>2^23 \<le> x / 2^e < 2^24\<close>; 300 steps cover
  every magnitude below \<open>2^128\<close>, where single precision ends (the overflow to infinity
  beyond is not modelled).
\<close>

definition pow2 :: "int \<Rightarrow> real" where
  "pow2 e = (if 0 \<le> e then 2 ^ nat e else 1 / 2 ^ nat (- e))"

fun f32_exponent :: "nat \<Rightarrow> real \<Rightarrow> int \<Rightarrow> int" where
  "f32_exponent 0 x e = e"
| "f32_exponent (Suc n) x e =
     (if 2 ^ 24 \<le> x then f32_exponent n (x / 2) (e + 1)
      else if x < 2 ^ 23 then f32_exponent n (x * 2) (e - 1)
      else e)"

definition f32_round :: "real \<Rightarrow> real" where
  "f32_round x =
     (if x = 0 then 0
      else
        (let e = max (- 149) (f32_exponent 300 \<bar>x\<bar> 0); u = pow2 e
         in of_int (cvRound (x / u)) * u))"

text \<open>
  How \<open>x * a + b\<close> is evaluated on single-precision operands depends on the build of
  OpenCV and on the processor: the product is rounded before the addition
  (\<open>muladd_f32\<close>), or product and sum are rounded once (\<open>fma_f32\<close>, a fused
  multiply-add). The evaluation is therefore a parameter of \<open>scale_abs\<close>. Both ways are
  exact on integers of small magnitude, which is what \<open>exact_on_integers\<close> says.
\<close>

type_synonym f32_arith = "real \<Rightarrow> real \<Rightarrow> real \<Rightarrow> real"

definition muladd_f32 :: f32_arith where
  "muladd_f32 x a b = f32_round (f32_round (x * a) + b)"

definition fma_f32 :: f32_arith where
  "fma_f32 x a b = f32_round (x * a + b)"

definition exact_on_integers :: "f32_arith \<Rightarrow> bool" where
  "exact_on_integers muladd =
     (\<forall>x a b :: int. \<bar>x * a\<bar> < 2 ^ 24 \<and> \<bar>x * a + b\<bar> < 2 ^ 24 \<longrightarrow>
        muladd (of_int x) (of_int a) (of_int b) = of_int (x * a + b))"

definition scale_abs :: "f32_arith \<Rightarrow> real \<Rightarrow> real \<Rightarrow> sample \<Rightarrow> sample" where
  "scale_abs muladd alpha beta v =
     saturate_cast_uchar \<bar>muladd (real (unat v)) (f32_round alpha) (f32_round beta)\<bar>"



subsection \<open>Resampling\<close>

text \<open>
  \<^verbatim>\<open>cv2.resize(src, dsize, interpolation=INTER_AREA)\<close> returns an image of \<open>dsize =
  (width, height)\<close>. The two components are passed as C integers: a component that does
  not fit one is refused with an error. A \<open>dsize\<close> with a component that is not positive
  counts as not given; as the call gives no scale factors either, OpenCV raises. Otherwise
  the result is computed by the interpolation, which is a parameter of the model:
  \<open>interp src dw dh\<close> is \<open>None\<close> when no buffer of \<open>dw\<close> by \<open>dh\<close> pixels can be
  delivered (the memory for it is not available), and then OpenCV raises; else it gives
  the pixel of every row and column of the result.
\<close>

definition INT_MAX :: int where
  "INT_MAX = 2147483647"

type_synonym resampler = "image \<Rightarrow> nat \<Rightarrow> nat \<Rightarrow> (nat \<Rightarrow> nat \<Rightarrow> pixel) option"

definition raster :: "(nat \<Rightarrow> nat \<Rightarrow> pixel) \<Rightarrow> nat \<Rightarrow> nat \<Rightarrow> image" where
  "raster f dw dh = map (\<lambda>r. map (\<lambda>c. f r c) [0..<dw]) [0..<dh]"

definition cv_resize :: "resampler \<Rightarrow> image \<Rightarrow> int \<times> int \<Rightarrow> error + image option" where
  "cv_resize interp src dsize =
     (case dsize of (dw, dh) \<Rightarrow>
        if dw < - INT_MAX - 1 \<or> INT_MAX < dw \<or> dh < - INT_MAX - 1 \<or> INT_MAX < dh then Inl CvError
        else if dw \<le> 0 \<or> dh \<le> 0 then Inl CvError
        else
          (case interp src (nat dw) (nat dh) of
             None \<Rightarrow> Inl CvError
           | Some f \<Rightarrow> Inr (Some (raster f (nat dw) (nat dh)))))"

section \<open>ImageProcessor: the transforms\<close>

text \<open>
  Every transform reads the processor and returns a new image. With no image loaded,
  \<^verbatim>\<open>cv2.cvtColor\<close> and \<^verbatim>\<open>cv2.rotate\<close> raise \<^verbatim>\<open>cv2.error\<close> on \<^verbatim>\<open>None\<close>, while
  \<^verbatim>\<open>cv2.convertScaleAbs\<close> and \<^verbatim>\<open>cv2.flip\<close> take \<^verbatim>\<open>None\<close> for an empty array and return
  \<^verbatim>\<open>None\<close>; \<^verbatim>\<open>None.shape\<close> raises \<^verbatim>\<open>AttributeError\<close>.
\<close>

definition grayscale :: "ImageProcessor \<Rightarrow> error + image option" where
  "grayscale p =
     (case current_cv_image p of
        None \<Rightarrow> Inl CvError
      | Some img \<Rightarrow> Inr (Some (cvtColor_GRAY2BGR (cvtColor_BGR2GRAY img))))"


definition rotate_img :: "rotate_code \<Rightarrow> ImageProcessor \<Rightarrow> error + image option" where
  "rotate_img angle_code p =
     (case current_cv_image p of
        None \<Rightarrow> Inl CvError
      | Some img \<Rightarrow> Inr (Some (cv_rotate img angle_code)))"

definition flip :: "int \<Rightarrow> ImageProcessor \<Rightarrow> error + image option" where
  "flip axis p =
     (case current_cv_image p of
        None \<Rightarrow> Inr None
      | Some img \<Rightarrow> Inr (Some (cv_flip img axis)))"

text \<open>
  \<^verbatim>\<open>int(x / 100)\<close> for an integer \<open>x\<close>: Python divides into a double and \<^verbatim>\<open>int\<close> drops
  the fraction, towards zero. The division raises \<^verbatim>\<open>OverflowError\<close> when the quotient,
  rounded to a double, is beyond the largest double. For \<open>|x| < 2^53\<close> the integer part
  of the double is the exact one, which \<open>int_div100\<close> computes; for a larger \<open>|x|\<close> the
  double may be off the exact quotient, but then either way the size is far beyond a C
  integer and \<^verbatim>\<open>cv2.resize\<close> refuses it.
\<close>

definition true_div_overflows :: "int \<Rightarrow> bool" where
  "true_div_overflows x = ((2 ^ 1024 - 2 ^ 970) * 100 \<le> \<bar>x\<bar>)"

definition int_div100 :: "int \<Rightarrow> int" where
  "int_div100 x = (if 0 \<le> x then x div 100 else - ((- x) div 100))"

definition resize :: "resampler \<Rightarrow> int \<Rightarrow> ImageProcessor \<Rightarrow> error + image option" where
  "resize inter_area scale_percent p =
     (case original_reference p of
        None \<Rightarrow> Inl AttributeError
      | Some orig \<Rightarrow>
          (let h = int (height orig); w = int (width orig) in
           if true_div_overflows (w * scale_percent) \<or> true_div_overflows (h * scale_percent)
           then Inl OverflowError
           else cv_resize inter_area orig
                  (int_div100 (w * scale_percent), int_div100 (h * scale_percent))))"

text \<open>
  \<^verbatim>\<open>resize_popup\<close>: \<open>percent\<close> is what \<^verbatim>\<open>simpledialog.askinteger\<close> returned, an integer or
  \<^verbatim>\<open>None\<close>; the test \<^verbatim>\<open>if percent:\<close> lets every integer but 0 through.
\<close>

definition resize_popup :: "resampler \<Rightarrow> int option \<Rightarrow> ImageEditorApp
    \<Rightarrow> ImageEditorApp \<times> outcome" where
  "resize_popup inter_area percent s =
     (if current_cv_image (processor s) = None then
        (s, ShowError ''No image'' ''Please open an image first.'')
      else
        (case percent of
           None \<Rightarrow> (s, Ignored)
         | Some pc \<Rightarrow>
             if pc \<noteq> 0 then process_with_loading (resize inter_area pc) s else (s, Ignored)))"

section \<open>Repeated undo and redo\<close>

primrec repeat_undo :: "nat \<Rightarrow> ImageEditorApp \<Rightarrow> ImageEditorApp" where
  "repeat_undo 0 s = s"
| "repeat_undo (Suc n) s = repeat_undo n (fst (app_undo s))"

primrec repeat_redo :: "nat \<Rightarrow> ImageEditorApp \<Rightarrow> ImageEditorApp" where
  "repeat_redo 0 s = s"
| "repeat_redo (Suc n) s = repeat_redo n (fst (app_redo s))"

section \<open>Example data\<close>

definition red_px :: pixel where
  "red_px = (0, 0, 255)"

definition dark_px :: pixel where
  "dark_px = (10, 20, 30)"

definition img_a :: image where
  "img_a = [[red_px, dark_px], [dark_px, red_px]]"

definition img_b :: image where
  "img_b = [[dark_px, dark_px, red_px]]"

definition img_c :: image where
  "img_c = [[red_px], [dark_px]]"

text \<open>A session with \<open>img_a\<close> loaded and untouched.\<close>

definition app_loaded :: ImageEditorApp where
  "app_loaded =
     \<lparr>processor = \<lparr>current_cv_image = Some img_a, original_reference = Some img_a\<rparr>,
      history = history_init,
      current_path = Some ''a.png''\<rparr>"

text \<open>A session after two edits of \<open>img_a\<close>, showing \<open>img_c\<close>.\<close>

definition app_edited :: ImageEditorApp where
  "app_edited =
     \<lparr>processor = \<lparr>current_cv_image = Some img_c, original_reference = Some img_a\<rparr>,
      history = \<lparr>undo_stack = [img_a, img_b], redo_stack = []\<rparr>,
      current_path = Some ''a.png''\<rparr>"

text \<open>A decoder that knows two files and fails on every other path.\<close>

definition imread_example :: "string \<Rightarrow> image option" where
  "imread_example path =
     (if path = ''a.png'' then Some img_a else if path = ''b.png'' then Some img_b else None)"

section \<open>Auxiliary definitions\<close>

text \<open>The clockwise quarter turn written out: transpose, then reverse every row.\<close>

definition rot_cw :: "'a list list \<Rightarrow> 'a list list" where
  "rot_cw img = map rev (cv_transpose img)"

text \<open>The session after \<^verbatim>\<open>process_with_loading(operation)\<close>.\<close>

definition apply_op :: "(ImageProcessor \<Rightarrow> error + image option) \<Rightarrow> ImageEditorApp
    \<Rightarrow> ImageEditorApp" where
  "apply_op operation s = fst (process_with_loading operation s)"


text \<open>
  A resampler to run the model on concrete inputs (nearest neighbour, never short of
  memory); the theorems about \<^verbatim>\<open>resize\<close> hold for every resampler.
\<close>

definition nearest_px :: "image \<Rightarrow> nat \<Rightarrow> nat \<Rightarrow> nat \<Rightarrow> nat \<Rightarrow> pixel" where
  "nearest_px src dw dh r c = src ! (r * height src div dh) ! (c * width src div dw)"

definition nearest :: resampler where
  "nearest src dw dh = Some (nearest_px src dw dh)"

text \<open>An image 200 pixels wide and 100 high, and an image of a single pixel.\<close>

definition img_200x100 :: image where
  "img_200x100 = replicate 100 (replicate 200 red_px)"

definition img_1x1 :: image where
  "img_1x1 = [[red_px]]"

text \<open>Sessions with these images loaded and untouched.\<close>

definition app_200x100 :: ImageEditorApp where
  "app_200x100 =
     \<lparr>processor = \<lparr>current_cv_image = Some img_200x100, original_reference = Some img_200x100\<rparr>,
      history = history_init,
      current_path = Some ''wide.png''\<rparr>"

definition app_1x1 :: ImageEditorApp where
  "app_1x1 =
     \<lparr>processor = \<lparr>current_cv_image = Some img_1x1, original_reference = Some img_1x1\<rparr>,
      history = history_init,
      current_path = Some ''dot.png''\<rparr>"

section \<open>Basic facts about the session handlers\<close>

lemma app_undo_nonempty:
  assumes "current_cv_image (processor s) = Some c" "undo_stack (history s) \<noteq> []"
  shows "app_undo s =
    (s\<lparr>history := (history s)\<lparr>redo_stack := redo_stack (history s) @ [c],
                                   undo_stack := butlast (undo_stack (history s))\<rparr>,
       processor := (processor s)\<lparr>current_cv_image := Some (last (undo_stack (history s)))\<rparr>\<rparr>,
     Completed)"
  using assms by (simp add: app_undo_def history_undo_def)

lemma app_redo_nonempty:
  assumes "current_cv_image (processor s) = Some c" "redo_stack (history s) \<noteq> []"
  shows "app_redo s =
    (s\<lparr>history := (history s)\<lparr>undo_stack := undo_stack (history s) @ [c],
                                   redo_stack := butlast (redo_stack (history s))\<rparr>,
       processor := (processor s)\<lparr>current_cv_image := Some (last (redo_stack (history s)))\<rparr>\<rparr>,
     Completed)"
  using assms by (simp add: app_redo_def history_redo_def)

lemma app_undo_empty:
  assumes "current_cv_image (processor s) = Some c" "undo_stack (history s) = []"
  shows "app_undo s = (s, Completed)"
  using assms by (simp add: app_undo_def history_undo_def)

lemma app_redo_empty:
  assumes "current_cv_image (processor s) = Some c" "redo_stack (history s) = []"
  shows "app_redo s = (s, Completed)"
  using assms by (simp add: app_redo_def history_redo_def)

lemma process_with_loading_success:
  assumes "current_cv_image (processor s) = Some cur"
    "operation (processor s) = Inr (Some new_img)"
  shows "process_with_loading operation s =
    (s\<lparr>history := (history s)\<lparr>undo_stack := undo_stack (history s) @ [cur], redo_stack := []\<rparr>,
       processor := (processor s)\<lparr>current_cv_image := Some new_img\<rparr>\<rparr>,
     Completed)"
  using assms by (simp add: process_with_loading_def save_state_def)

lemma process_with_loading_raises:
  assumes "current_cv_image (processor s) = Some cur" "operation (processor s) = Inl e"
  shows "process_with_loading operation s = (s, Raised e)"
  using assms by (simp add: process_with_loading_def)

lemma app_undo_current:
  assumes "current_cv_image (processor s) = Some c"
  shows "current_cv_image (processor (fst (app_undo s))) =
         Some (if undo_stack (history s) = [] then c else last (undo_stack (history s)))"
  using assms by (simp add: app_undo_def history_undo_def)

lemma app_redo_current:
  assumes "current_cv_image (processor s) = Some c"
  shows "current_cv_image (processor (fst (app_redo s))) =
         Some (if redo_stack (history s) = [] then c else last (redo_stack (history s)))"
  using assms by (simp add: app_redo_def history_redo_def)

lemma app_undo_original:
  "original_reference (processor (fst (app_undo s))) = original_reference (processor s)"
  by (simp add: app_undo_def split: sum.split prod.split)

lemma app_redo_original:
  "original_reference (processor (fst (app_redo s))) = original_reference (processor s)"
  by (simp add: app_redo_def split: sum.split prod.split)

lemma process_with_loading_original:
  "original_reference (processor (fst (process_with_loading operation s))) =
   original_reference (processor s)"
  by (simp add: process_with_loading_def split: sum.split option.split)

lemma open_image_success:
  assumes "imread path = Some img" "path \<noteq> []"
  shows "open_image imread path s =
     (s\<lparr>processor := \<lparr>current_cv_image = Some img, original_reference = Some img\<rparr>,
        current_path := Some path, history := history_reset (history s)\<rparr>,
      Completed)"
  using assms by (simp add: open_image_def load_def)

lemma open_image_failure_original:
  assumes "imread path = None"
  shows "original_reference (processor (fst (open_image imread path s))) =
         original_reference (processor s)"
  using assms by (simp add: open_image_def load_def)

lemma app_redo_app_undo:
  assumes "current_cv_image (processor s) = Some c" "undo_stack (history s) \<noteq> []"
  shows "fst (app_redo (fst (app_undo s))) = s"
  using assms by (simp add: app_undo_nonempty app_redo_nonempty)

lemma repeat_redo_Suc: "repeat_redo (Suc n) s = fst (app_redo (repeat_redo n s))"
  by (induction n arbitrary: s) simp_all

lemma app_undo_loaded:
  "current_cv_image (processor s) \<noteq> None \<Longrightarrow>
   current_cv_image (processor (fst (app_undo s))) \<noteq> None"
  by (auto simp: app_undo_def history_undo_def)

lemma app_undo_length:
  "current_cv_image (processor s) \<noteq> None \<Longrightarrow>
   length (undo_stack (history (fst (app_undo s)))) = length (undo_stack (history s)) - 1"
  by (auto simp: app_undo_def history_undo_def)

section \<open>Undo and redo on empty stacks\<close>

text \<open>
  Claim C8. With an empty undo stack \<^verbatim>\<open>undo\<close> returns the current buffer it was given and
  leaves both stacks as they were, and with an empty redo stack so does \<^verbatim>\<open>redo\<close>; neither
  raises. The same holds for the session's handlers on a loaded image: they complete and
  the session is unchanged.
\<close>

theorem empty_stack_noop:
  "(undo_stack h = [] \<longrightarrow> history_undo cur h = Inr (cur, h)) \<and>
   (redo_stack h = [] \<longrightarrow> history_redo cur h = Inr (cur, h)) \<and>
   (undo_stack (history s) = [] \<and> current_cv_image (processor s) \<noteq> None
      \<longrightarrow> app_undo s = (s, Completed)) \<and>
   (redo_stack (history s) = [] \<and> current_cv_image (processor s) \<noteq> None
      \<longrightarrow> app_redo s = (s, Completed))"
  by (simp add: history_undo_def history_redo_def app_undo_def app_redo_def)

theorem empty_stack_noop_witness:
  "undo_stack history_init = [] \<and> redo_stack history_init = [] \<and>
   history_undo (Some img_a) history_init = Inr (Some img_a, history_init) \<and>
   history_redo (Some img_a) history_init = Inr (Some img_a, history_init) \<and>
   undo_stack (history app_loaded) = [] \<and> redo_stack (history app_loaded) = [] \<and>
   current_cv_image (processor app_loaded) \<noteq> None \<and>
   app_undo app_loaded = (app_loaded, Completed) \<and>
   app_redo app_loaded = (app_loaded, Completed)"
proof -
  have e: "undo_stack history_init = []" "redo_stack history_init = []"
    by (simp_all add: history_init_def)
  have l: "undo_stack (history app_loaded) = []" "redo_stack (history app_loaded) = []"
    "current_cv_image (processor app_loaded) \<noteq> None"
    by (simp_all add: app_loaded_def history_init_def)
  from empty_stack_noop [of history_init "Some img_a" app_loaded] e l
  show ?thesis by simp
qed

section \<open>A failed load\<close>

text \<open>
  Claim C1. The claim asks that a load whose file cannot be decoded leaves the session as
  it was. The code assigns the decoder's result to \<^verbatim>\<open>current_cv_image\<close> before it tests
  it: in the session \<open>app_edited\<close>, which shows \<open>img_c\<close> and has two entries on its undo
  stack, opening an undecodable file reports the error, keeps the original buffer, the
  stacks and the save path, and leaves the current buffer unset.
\<close>

theorem failed_load_clears_current:
  "imread_example ''broken.png'' = None \<and>
   open_image imread_example ''broken.png'' app_edited =
     (app_edited\<lparr>processor := \<lparr>current_cv_image = None, original_reference = Some img_a\<rparr>\<rparr>,
      ShowError ''Open failed'' ''Failed to load image. Please choose a valid image file.'') \<and>
   load imread_example ''broken.png'' (processor app_edited) =
     (\<lparr>current_cv_image = None, original_reference = Some img_a\<rparr>, Inl ValueError) \<and>
   current_cv_image (processor app_edited) = Some img_c \<and>
   current_cv_image (processor (fst (open_image imread_example ''broken.png'' app_edited))) = None \<and>
   undo_stack (history (fst (open_image imread_example ''broken.png'' app_edited))) = [img_a, img_b]"
  by (simp add: open_image_def load_def imread_example_def app_edited_def error_text_def)

section \<open>History records the state before the edit\<close>

text \<open>
  Claim C3. When a transform succeeds on a loaded session, the handler completes, the
  undo stack is the old one with the buffer that was current before the edit on top, the
  redo stack is empty, the current buffer is the transform's result, and a redo that
  follows changes nothing. The same holds when the edit is applied after an undo.
\<close>

theorem apply_records_previous_state:
  assumes "current_cv_image (processor s) = Some cur"
    and "operation (processor s) = Inr (Some new_img)"
    and "operation' (processor (fst (app_undo s))) = Inr (Some new_img')"
  shows "snd (process_with_loading operation s) = Completed \<and>
    undo_stack (history (fst (process_with_loading operation s))) = undo_stack (history s) @ [cur] \<and>
    last (undo_stack (history (fst (process_with_loading operation s)))) = cur \<and>
    redo_stack (history (fst (process_with_loading operation s))) = [] \<and>
    current_cv_image (processor (fst (process_with_loading operation s))) = Some new_img \<and>
    app_redo (fst (process_with_loading operation s)) =
      (fst (process_with_loading operation s), Completed) \<and>
    redo_stack (history (fst (process_with_loading operation' (fst (app_undo s))))) = [] \<and>
    app_redo (fst (process_with_loading operation' (fst (app_undo s)))) =
      (fst (process_with_loading operation' (fst (app_undo s))), Completed)"
proof -
  from assms(1) have u: "current_cv_image (processor (fst (app_undo s))) =
      Some (if undo_stack (history s) = [] then cur else last (undo_stack (history s)))"
    by (rule app_undo_current)
  show ?thesis
    using assms(1,2) u assms(3)
    by (simp add: process_with_loading_success app_redo_empty)
qed

theorem apply_records_previous_state_witness:
  "current_cv_image (processor app_edited) = Some img_c \<and>
   flip 0 (processor app_edited) = Inr (Some [[dark_px], [red_px]]) \<and>
   flip 1 (processor (fst (app_undo app_edited))) = Inr (Some [[red_px, dark_px, dark_px]]) \<and>
   snd (process_with_loading (flip 0) app_edited) = Completed \<and>
   undo_stack (history (fst (process_with_loading (flip 0) app_edited))) = [img_a, img_b, img_c] \<and>
   redo_stack (history (fst (process_with_loading (flip 0) app_edited))) = [] \<and>
   current_cv_image (processor (fst (process_with_loading (flip 0) app_edited))) =
     Some [[dark_px], [red_px]] \<and>
   app_redo (fst (process_with_loading (flip 0) app_edited)) =
     (fst (process_with_loading (flip 0) app_edited), Completed) \<and>
   app_redo (fst (process_with_loading (flip 1) (fst (app_undo app_edited)))) =
     (fst (process_with_loading (flip 1) (fst (app_undo app_edited))), Completed)"
proof -
  have h1: "current_cv_image (processor app_edited) = Some img_c"
    by (simp add: app_edited_def)
  have h2: "flip 0 (processor app_edited) = Inr (Some [[dark_px], [red_px]])"
    by (simp add: app_edited_def flip_def cv_flip_def img_c_def)
  have h3: "flip 1 (processor (fst (app_undo app_edited))) =
      Inr (Some [[red_px, dark_px, dark_px]])"
    by (simp add: app_edited_def app_undo_def history_undo_def flip_def cv_flip_def img_b_def)
  have st: "undo_stack (history app_edited) = [img_a, img_b]"
    by (simp add: app_edited_def)
  from apply_records_previous_state [where s = app_edited and cur = img_c
      and operation = "flip 0" and new_img = "[[dark_px], [red_px]]"
      and operation' = "flip 1" and new_img' = "[[red_px, dark_px, dark_px]]"] h1 h2 h3 st
  show ?thesis by simp
qed

section \<open>Undo and redo are inverse\<close>

text \<open>
  Claim C5. On a loaded session, \<open>n\<close> undos followed by \<open>n\<close> redos, for \<open>n\<close> up to the
  depth of the undo stack, give back the session as it was: the current buffer, both
  stacks, the original buffer and the save path.
\<close>

theorem undo_redo_inverse:
  assumes "n \<le> length (undo_stack (history s))"
    and "current_cv_image (processor s) \<noteq> None"
  shows "repeat_redo n (repeat_undo n s) = s"
  using assms
proof (induction n arbitrary: s)
  case 0
  show ?case by simp
next
  case (Suc n)
  let ?s1 = "fst (app_undo s)"
  from Suc.prems obtain c where c: "current_cv_image (processor s) = Some c" by auto
  from Suc.prems have ne: "undo_stack (history s) \<noteq> []" by auto
  have "n \<le> length (undo_stack (history ?s1))"
    using Suc.prems by (simp add: app_undo_length)
  moreover have "current_cv_image (processor ?s1) \<noteq> None"
    using Suc.prems by (simp add: app_undo_loaded)
  ultimately have ih: "repeat_redo n (repeat_undo n ?s1) = ?s1"
    by (rule Suc.IH)
  have "repeat_redo (Suc n) (repeat_undo (Suc n) s) =
      fst (app_redo (repeat_redo n (repeat_undo n ?s1)))"
    by (simp only: repeat_redo_Suc repeat_undo.simps)
  also have "\<dots> = fst (app_redo ?s1)" by (simp only: ih)
  also have "\<dots> = s" using c ne by (rule app_redo_app_undo)
  finally show ?case .
qed

theorem undo_redo_inverse_witness:
  "2 \<le> length (undo_stack (history app_edited)) \<and>
   current_cv_image (processor app_edited) \<noteq> None \<and>
   current_cv_image (processor (repeat_undo 2 app_edited)) = Some img_a \<and>
   repeat_redo 2 (repeat_undo 2 app_edited) = app_edited"
proof -
  have h1: "2 \<le> length (undo_stack (history app_edited))"
    by (simp add: app_edited_def)
  have h2: "current_cv_image (processor app_edited) \<noteq> None"
    by (simp add: app_edited_def)
  have u: "current_cv_image (processor (repeat_undo 2 app_edited)) = Some img_a"
    by (simp add: numeral_2_eq_2 app_edited_def app_undo_def history_undo_def)
  from undo_redo_inverse [OF h1 h2] h1 h2 u show ?thesis by simp
qed

section \<open>The original buffer\<close>

text \<open>
  Claim C9. A transform, an undo and a redo leave the original buffer as it is, and so
  does a load that fails; a successful load replaces it with the decoded image. A
  successful transform makes its result the current buffer, and undo and redo make the
  buffer that \<^verbatim>\<open>ImageHistory\<close> returns the current one.
\<close>

theorem original_replaced_only_by_load:
  "original_reference (processor (fst (process_with_loading operation s))) =
     original_reference (processor s) \<and>
   original_reference (processor (fst (app_undo s))) = original_reference (processor s) \<and>
   original_reference (processor (fst (app_redo s))) = original_reference (processor s) \<and>
   (imread bad = None \<longrightarrow>
      original_reference (processor (fst (open_image imread bad s))) =
        original_reference (processor s)) \<and>
   (good \<noteq> [] \<and> imread good = Some img \<longrightarrow>
      original_reference (processor (fst (open_image imread good s))) = Some img) \<and>
   (current_cv_image (processor s) = Some c \<and> operation (processor s) = Inr (Some new_img) \<longrightarrow>
      current_cv_image (processor (fst (process_with_loading operation s))) = Some new_img) \<and>
   (current_cv_image (processor s) = Some c \<longrightarrow>
      current_cv_image (processor (fst (app_undo s))) =
        Some (if undo_stack (history s) = [] then c else last (undo_stack (history s)))) \<and>
   (current_cv_image (processor s) = Some c \<longrightarrow>
      current_cv_image (processor (fst (app_redo s))) =
        Some (if redo_stack (history s) = [] then c else last (redo_stack (history s))))"
  by (simp add: process_with_loading_original app_undo_original app_redo_original
      open_image_failure_original open_image_success process_with_loading_success
      app_undo_current app_redo_current)

theorem original_replaced_only_by_load_witness:
  "imread_example ''broken.png'' = None \<and>
   imread_example ''b.png'' = Some img_b \<and>
   current_cv_image (processor app_edited) = Some img_c \<and>
   flip 0 (processor app_edited) = Inr (Some [[dark_px], [red_px]]) \<and>
   original_reference (processor app_edited) = Some img_a \<and>
   original_reference (processor (fst (process_with_loading (flip 0) app_edited))) = Some img_a \<and>
   original_reference (processor (fst (app_undo app_edited))) = Some img_a \<and>
   original_reference (processor (fst (app_redo app_edited))) = Some img_a \<and>
   original_reference (processor (fst (open_image imread_example ''broken.png'' app_edited))) =
     Some img_a \<and>
   original_reference (processor (fst (open_image imread_example ''b.png'' app_edited))) =
     Some img_b \<and>
   current_cv_image (processor (fst (process_with_loading (flip 0) app_edited))) =
     Some [[dark_px], [red_px]] \<and>
   current_cv_image (processor (fst (app_undo app_edited))) = Some img_b \<and>
   current_cv_image (processor (fst (app_redo app_edited))) = Some img_c"
proof -
  have h1: "imread_example ''broken.png'' = None"
    by (simp add: imread_example_def)
  have h2: "imread_example ''b.png'' = Some img_b" "''b.png'' \<noteq> []"
    by (simp_all add: imread_example_def)
  have h3: "current_cv_image (processor app_edited) = Some img_c"
    by (simp add: app_edited_def)
  have h4: "flip 0 (processor app_edited) = Inr (Some [[dark_px], [red_px]])"
    by (simp add: app_edited_def flip_def cv_flip_def img_c_def)
  have st: "undo_stack (history app_edited) = [img_a, img_b]"
    "redo_stack (history app_edited) = []"
    "original_reference (processor app_edited) = Some img_a"
    by (simp_all add: app_edited_def)
  from original_replaced_only_by_load [of "flip 0" app_edited imread_example "''broken.png''"
      "''b.png''" img_b img_c "[[dark_px], [red_px]]"] h1 h2 h3 h4 st
  show ?thesis by simp
qed

section \<open>Rectangular images under transpose and flip\<close>

lemma wf_image_rows:
  assumes "wf_image img" "i < length img"
  shows "length (img ! i) = width img"
  using assms by (simp add: wf_image_def list_all_length)

lemma wf_imageI:
  assumes "0 < length img" "0 < w" "\<And>i. i < length img \<Longrightarrow> length (img ! i) = w"
  shows "wf_image img \<and> width img = w \<and> height img = length img"
proof -
  from assms(1) obtain r rs where img: "img = r # rs" by (cases img) auto
  with assms(3)[of 0] have w: "width img = w" by (simp add: width_def)
  with assms show ?thesis by (simp add: wf_image_def list_all_length height_def)
qed

lemma wf_image_pos:
  assumes "wf_image img"
  shows "0 < length img" "0 < width img"
  using assms by (simp_all add: wf_image_def height_def)

lemma length_cv_transpose: "length (cv_transpose img) = width img"
  by (simp add: cv_transpose_def)

lemma cv_transpose_nth:
  "i < width img \<Longrightarrow> cv_transpose img ! i = map (\<lambda>row. row ! i) img"
  by (simp add: cv_transpose_def)

lemma wf_cv_transpose:
  assumes "wf_image img"
  shows "wf_image (cv_transpose img) \<and> width (cv_transpose img) = length img \<and>
         height (cv_transpose img) = width img"
proof -
  have "wf_image (cv_transpose img) \<and> width (cv_transpose img) = length img \<and>
        height (cv_transpose img) = length (cv_transpose img)"
    using wf_image_pos[OF assms]
    by (intro wf_imageI) (simp_all add: length_cv_transpose cv_transpose_nth)
  then show ?thesis by (simp add: length_cv_transpose)
qed

lemma wf_map_rev:
  assumes "wf_image img"
  shows "wf_image (map rev img) \<and> width (map rev img) = width img \<and>
         height (map rev img) = length img"
proof -
  have "wf_image (map rev img) \<and> width (map rev img) = width img \<and>
        height (map rev img) = length (map rev img)"
    using wf_image_pos[OF assms] wf_image_rows[OF assms]
    by (intro wf_imageI) simp_all
  then show ?thesis by simp
qed

lemma wf_rev:
  assumes "wf_image img"
  shows "wf_image (rev img) \<and> width (rev img) = width img \<and> height (rev img) = length img"
proof -
  have "wf_image (rev img) \<and> width (rev img) = width img \<and>
        height (rev img) = length (rev img)"
    using wf_image_pos[OF assms] wf_image_rows[OF assms]
    by (intro wf_imageI) (simp_all add: rev_nth)
  then show ?thesis by simp
qed

lemma wf_rot_cw:
  assumes "wf_image img"
  shows "wf_image (rot_cw img)" "width (rot_cw img) = length img" "length (rot_cw img) = width img"
  using wf_map_rev[OF conjunct1[OF wf_cv_transpose[OF assms]]] wf_cv_transpose[OF assms]
  by (simp_all add: rot_cw_def length_cv_transpose)

lemma rot_cw_nth:
  assumes "wf_image img" "i < width img" "j < length img"
  shows "rot_cw img ! i ! j = img ! (length img - Suc j) ! i"
  using assms by (simp add: rot_cw_def length_cv_transpose cv_transpose_nth rev_nth)

lemma rot_cw_twice:
  assumes "wf_image img"
  shows "rot_cw (rot_cw img) = rev (map rev img)"
proof (rule nth_equalityI)
  show len: "length (rot_cw (rot_cw img)) = length (rev (map rev img))"
    using wf_rot_cw[OF assms] wf_rot_cw[OF wf_rot_cw(1)[OF assms]] by simp
  fix i assume "i < length (rot_cw (rot_cw img))"
  with len have i: "i < length img" by simp
  let ?R = "rot_cw img"
  have wfR: "wf_image ?R" and wR: "width ?R = length img" and lR: "length ?R = width img"
    using wf_rot_cw[OF assms] by simp_all
  have row: "length (img ! (length img - Suc i)) = width img"
    using i by (intro wf_image_rows[OF assms]) simp
  have "map (\<lambda>row. row ! i) ?R = img ! (length img - Suc i)"
  proof (rule nth_equalityI)
    show "length (map (\<lambda>row. row ! i) ?R) = length (img ! (length img - Suc i))"
      using row lR by simp
    fix j assume "j < length (map (\<lambda>row. row ! i) ?R)"
    then have j: "j < width img" using lR by simp
    then show "map (\<lambda>row. row ! i) ?R ! j = img ! (length img - Suc i) ! j"
      using i lR by (simp add: rot_cw_nth[OF assms])
  qed
  then have "rot_cw ?R ! i = rev (img ! (length img - Suc i))"
    using i wR by (simp add: rot_cw_def[of ?R] length_cv_transpose cv_transpose_nth)
  also have "\<dots> = rev (map rev img) ! i"
    using i by (simp add: rev_nth)
  finally show "rot_cw (rot_cw img) ! i = rev (map rev img) ! i" .
qed

lemma rot_180_twice: "rev (map rev (rev (map rev img))) = img"
  by (simp add: rev_map comp_def)

lemma rot_cw_four:
  assumes "wf_image img"
  shows "rot_cw (rot_cw (rot_cw (rot_cw img))) = img"
proof -
  have "wf_image (rot_cw (rot_cw img))"
    by (intro wf_rot_cw(1) assms)
  then have "rot_cw (rot_cw (rot_cw (rot_cw img))) = rev (map rev (rot_cw (rot_cw img)))"
    by (rule rot_cw_twice)
  also have "\<dots> = rev (map rev (rev (map rev img)))"
    by (simp only: rot_cw_twice[OF assms])
  finally show ?thesis by (simp only: rot_180_twice)
qed

lemma cv_rotate_cw: "cv_rotate img ROTATE_90_CLOCKWISE = rot_cw img"
  by (simp add: cv_flip_def rot_cw_def)

lemma cv_rotate_dims:
  assumes "wf_image img"
  shows "height (cv_rotate img ROTATE_90_CLOCKWISE) = width img"
    "width (cv_rotate img ROTATE_90_CLOCKWISE) = height img"
    "height (cv_rotate img ROTATE_90_COUNTERCLOCKWISE) = width img"
    "width (cv_rotate img ROTATE_90_COUNTERCLOCKWISE) = height img"
    "height (cv_rotate img ROTATE_180) = height img"
    "width (cv_rotate img ROTATE_180) = width img"
    "wf_image (cv_rotate img c)"
proof -
  note t = wf_cv_transpose[OF assms]
  note mt = wf_map_rev[OF conjunct1[OF t]]
  note rt = wf_rev[OF conjunct1[OF t]]
  note m = wf_map_rev[OF assms]
  note rm = wf_rev[OF conjunct1[OF m]]
  show "height (cv_rotate img ROTATE_90_CLOCKWISE) = width img"
    using t mt by (simp add: cv_flip_def height_def)
  show "width (cv_rotate img ROTATE_90_CLOCKWISE) = height img"
    using t mt by (simp add: cv_flip_def height_def)
  show "height (cv_rotate img ROTATE_90_COUNTERCLOCKWISE) = width img"
    using t rt by (simp add: cv_flip_def height_def)
  show "width (cv_rotate img ROTATE_90_COUNTERCLOCKWISE) = height img"
    using t rt by (simp add: cv_flip_def height_def)
  show "height (cv_rotate img ROTATE_180) = height img"
    using m rm by (simp add: cv_flip_def height_def)
  show "width (cv_rotate img ROTATE_180) = width img"
    using m rm by (simp add: cv_flip_def height_def)
  show "wf_image (cv_rotate img c)"
    using mt rt rm by (cases c) (simp_all add: cv_flip_def)
qed

section \<open>Rotation\<close>

lemma apply_op_current:
  assumes "current_cv_image (processor s) = Some cur"
    "operation (processor s) = Inr (Some new_img)"
  shows "current_cv_image (processor (apply_op operation s)) = Some new_img"
  using assms by (simp add: apply_op_def process_with_loading_success)

lemma apply_op_original:
  "original_reference (processor (apply_op operation s)) = original_reference (processor s)"
  by (simp add: apply_op_def process_with_loading_original)

lemma rotate_img_Some:
  "current_cv_image p = Some img \<Longrightarrow> rotate_img c p = Inr (Some (cv_rotate img c))"
  by (simp add: rotate_img_def)

lemma apply_rotate_current:
  assumes "current_cv_image (processor s) = Some img"
  shows "current_cv_image (processor (apply_op (rotate_img c) s)) = Some (cv_rotate img c)"
  using assms by (rule apply_op_current) (simp add: rotate_img_Some assms)

lemma wf_img_b: "wf_image img_b"
  by (simp add: wf_image_def img_b_def height_def width_def)

text \<open>
  Claim C6. For a rectangular image with at least one pixel, four clockwise quarter turns
  applied one after the other through the session give back the image itself, with the
  same dimensions and the same samples. A quarter turn, clockwise or counterclockwise,
  has the width of the input as its height and the height as its width; a half turn keeps
  both.
\<close>

theorem rotation_round_trip:
  assumes "wf_image img" and "current_cv_image (processor s) = Some img"
  shows "current_cv_image (processor
           (apply_op (rotate_img ROTATE_90_CLOCKWISE)
             (apply_op (rotate_img ROTATE_90_CLOCKWISE)
               (apply_op (rotate_img ROTATE_90_CLOCKWISE)
                 (apply_op (rotate_img ROTATE_90_CLOCKWISE) s))))) = Some img \<and>
         rotate_img c (processor s) = Inr (Some (cv_rotate img c)) \<and>
         height (cv_rotate img ROTATE_90_CLOCKWISE) = width img \<and>
         width (cv_rotate img ROTATE_90_CLOCKWISE) = height img \<and>
         height (cv_rotate img ROTATE_90_COUNTERCLOCKWISE) = width img \<and>
         width (cv_rotate img ROTATE_90_COUNTERCLOCKWISE) = height img \<and>
         height (cv_rotate img ROTATE_180) = height img \<and>
         width (cv_rotate img ROTATE_180) = width img"
proof -
  have "current_cv_image (processor
           (apply_op (rotate_img ROTATE_90_CLOCKWISE)
             (apply_op (rotate_img ROTATE_90_CLOCKWISE)
               (apply_op (rotate_img ROTATE_90_CLOCKWISE)
                 (apply_op (rotate_img ROTATE_90_CLOCKWISE) s))))) =
        Some (rot_cw (rot_cw (rot_cw (rot_cw img))))"
    by (simp only: apply_rotate_current[OF apply_rotate_current[OF apply_rotate_current[OF
            apply_rotate_current[OF assms(2)]]]] cv_rotate_cw)
  then have "current_cv_image (processor
           (apply_op (rotate_img ROTATE_90_CLOCKWISE)
             (apply_op (rotate_img ROTATE_90_CLOCKWISE)
               (apply_op (rotate_img ROTATE_90_CLOCKWISE)
                 (apply_op (rotate_img ROTATE_90_CLOCKWISE) s))))) = Some img"
    by (simp only: rot_cw_four[OF assms(1)])
  moreover have "rotate_img c (processor s) = Inr (Some (cv_rotate img c))"
    using assms(2) by (rule rotate_img_Some)
  ultimately show ?thesis
    using cv_rotate_dims(1-6)[OF assms(1)] by simp
qed

theorem rotation_round_trip_witness:
  "wf_image img_b \<and>
   current_cv_image (processor (app_loaded\<lparr>processor := (processor app_loaded)\<lparr>current_cv_image := Some img_b\<rparr>\<rparr>)) = Some img_b \<and>
   current_cv_image (processor
           (apply_op (rotate_img ROTATE_90_CLOCKWISE)
             (apply_op (rotate_img ROTATE_90_CLOCKWISE)
               (apply_op (rotate_img ROTATE_90_CLOCKWISE)
                 (apply_op (rotate_img ROTATE_90_CLOCKWISE)
                   (app_loaded\<lparr>processor := (processor app_loaded)\<lparr>current_cv_image := Some img_b\<rparr>\<rparr>)))))) = Some img_b \<and>
   cv_rotate img_b ROTATE_90_CLOCKWISE = [[dark_px], [dark_px], [red_px]] \<and>
   height (cv_rotate img_b ROTATE_90_CLOCKWISE) = 3 \<and>
   width (cv_rotate img_b ROTATE_90_CLOCKWISE) = 1 \<and>
   height (cv_rotate img_b ROTATE_180) = 1 \<and>
   width (cv_rotate img_b ROTATE_180) = 3"
proof -
  have h2: "current_cv_image (processor (app_loaded\<lparr>processor := (processor app_loaded)\<lparr>current_cv_image := Some img_b\<rparr>\<rparr>)) = Some img_b"
    by simp
  have d: "height img_b = 1" "width img_b = 3"
    by (simp_all add: img_b_def height_def width_def)
  have r: "cv_rotate img_b ROTATE_90_CLOCKWISE = [[dark_px], [dark_px], [red_px]]"
    by (simp add: img_b_def cv_flip_def cv_transpose_def width_def upt_rec[of 0] upt_rec[of 1] upt_rec[of 2] upt_rec[of 3])
  from rotation_round_trip [OF wf_img_b h2, of ROTATE_90_CLOCKWISE] wf_img_b d r
  show ?thesis by simp
qed

section \<open>Grayscale\<close>

lemma bgr2gray_gray2bgr: "bgr2gray (gray2bgr v) = v"
proof -
  have "unat v * BY15 + unat v * GY15 + unat v * RY15 + 2 ^ 14 = unat v * 32768 + 16384"
    by (simp add: BY15_def GY15_def RY15_def)
  then show ?thesis by (simp add: bgr2gray_def gray2bgr_def)
qed

lemma BGR2GRAY_GRAY2BGR: "cvtColor_BGR2GRAY (cvtColor_GRAY2BGR g) = g"
  by (simp add: cvtColor_BGR2GRAY_def cvtColor_GRAY2BGR_def comp_def bgr2gray_gray2bgr)

lemma bgr2gray_red: "bgr2gray red_px = 76"
  by (simp add: bgr2gray_def red_px_def BY15_def GY15_def RY15_def)

lemma bgr2gray_dark: "bgr2gray dark_px = 22"
  by (simp add: bgr2gray_def dark_px_def BY15_def GY15_def RY15_def)

text \<open>
  Claim C7. The result of the grayscale transform is a fixed point of it: applied to its
  own output it returns that output, so applying it twice through the session leaves the
  same current buffer as applying it once.
\<close>

theorem grayscale_idempotent:
  assumes "grayscale p = Inr (Some g)"
  shows "grayscale (p\<lparr>current_cv_image := Some g\<rparr>) = Inr (Some g) \<and>
         current_cv_image (processor (apply_op grayscale (apply_op grayscale
            (s\<lparr>processor := p\<rparr>)))) =
         current_cv_image (processor (apply_op grayscale (s\<lparr>processor := p\<rparr>)))"
proof -
  from assms obtain img where img: "current_cv_image p = Some img"
    and g: "g = cvtColor_GRAY2BGR (cvtColor_BGR2GRAY img)"
    by (auto simp: grayscale_def split: option.splits)
  have g2: "grayscale (p\<lparr>current_cv_image := Some g\<rparr>) = Inr (Some g)"
    by (simp add: grayscale_def g BGR2GRAY_GRAY2BGR)
  have c1: "current_cv_image (processor (apply_op grayscale (s\<lparr>processor := p\<rparr>))) = Some g"
    by (rule apply_op_current[where cur = img]) (simp_all add: img assms)
  have "grayscale (processor (apply_op grayscale (s\<lparr>processor := p\<rparr>))) = Inr (Some g)"
    using c1 by (simp add: grayscale_def g BGR2GRAY_GRAY2BGR)
  with c1 have "current_cv_image (processor (apply_op grayscale (apply_op grayscale
            (s\<lparr>processor := p\<rparr>)))) = Some g"
    by (rule apply_op_current)
  with g2 c1 show ?thesis by simp
qed

theorem grayscale_idempotent_witness:
  "grayscale (processor app_loaded) =
     Inr (Some [[(76, 76, 76), (22, 22, 22)], [(22, 22, 22), (76, 76, 76)]]) \<and>
   grayscale ((processor app_loaded)\<lparr>current_cv_image :=
       Some [[(76, 76, 76), (22, 22, 22)], [(22, 22, 22), (76, 76, 76)]]\<rparr>) =
     Inr (Some [[(76, 76, 76), (22, 22, 22)], [(22, 22, 22), (76, 76, 76)]])"
proof -
  have h: "grayscale (processor app_loaded) =
      Inr (Some [[(76, 76, 76), (22, 22, 22)], [(22, 22, 22), (76, 76, 76)]])"
    by (simp add: grayscale_def app_loaded_def img_a_def cvtColor_BGR2GRAY_def
        cvtColor_GRAY2BGR_def gray2bgr_def bgr2gray_red bgr2gray_dark)
  from grayscale_idempotent [OF h] h show ?thesis by simp
qed

section \<open>Brightness and contrast\<close>

lemma cvRound_of_int: "cvRound (of_int k) = k"
  by (simp add: cvRound_def)

lemma f32_exponent_nonpos:
  "x < 2 ^ 24 \<Longrightarrow> e \<le> 0 \<Longrightarrow> f32_exponent n x e \<le> 0"
  by (induction n arbitrary: x e) auto

lemma pow2_nonpos:
  assumes "e \<le> 0"
  shows "of_int m / pow2 e = of_int (m * 2 ^ nat (- e))" "pow2 e * 2 ^ nat (- e) = 1"
  using assms by (auto simp: pow2_def)

lemma f32_round_of_int:
  assumes "\<bar>n\<bar> < 2 ^ 24"
  shows "f32_round (of_int n) = of_int n"
proof (cases "n = 0")
  case True
  then show ?thesis by (simp add: f32_round_def)
next
  case False
  define e where "e = max (- 149) (f32_exponent 300 \<bar>of_int n\<bar> 0)"
  have "\<bar>real_of_int n\<bar> < 2 ^ 24"
    using assms by (metis of_int_abs of_int_less_numeral_power_cancel_iff)
  then have "f32_exponent 300 \<bar>of_int n\<bar> 0 \<le> 0"
    by (intro f32_exponent_nonpos) simp_all
  then have e: "e \<le> 0" by (simp add: e_def)
  have "f32_round (of_int n) = of_int (cvRound (of_int n / pow2 e)) * pow2 e"
    using False by (simp add: f32_round_def e_def Let_def)
  also have "\<dots> = of_int (n * 2 ^ nat (- e)) * pow2 e"
    by (simp only: pow2_nonpos(1)[OF e] cvRound_of_int)
  also have "\<dots> = of_int n * (pow2 e * 2 ^ nat (- e))"
    by simp
  also have "\<dots> = of_int n"
    by (simp only: pow2_nonpos(2)[OF e] mult_1_right)
  finally show ?thesis .
qed

lemma muladd_f32_exact: "exact_on_integers muladd_f32"
  unfolding exact_on_integers_def muladd_f32_def
proof (intro allI impI)
  fix x a b :: int
  assume h: "\<bar>x * a\<bar> < 2 ^ 24 \<and> \<bar>x * a + b\<bar> < 2 ^ 24"
  have "f32_round (of_int x * of_int a) = of_int (x * a)"
    using f32_round_of_int[of "x * a"] h by simp
  moreover have "f32_round (of_int (x * a) + of_int b) = of_int (x * a + b)"
    using f32_round_of_int[of "x * a + b"] h by simp
  ultimately show "f32_round (f32_round (of_int x * of_int a) + of_int b) = of_int (x * a + b)"
    by simp
qed

lemma fma_f32_exact: "exact_on_integers fma_f32"
  unfolding exact_on_integers_def fma_f32_def
proof (intro allI impI)
  fix x a b :: int
  assume h: "\<bar>x * a\<bar> < 2 ^ 24 \<and> \<bar>x * a + b\<bar> < 2 ^ 24"
  show "f32_round (of_int x * of_int a + of_int b) = of_int (x * a + b)"
    using f32_round_of_int[of "x * a + b"] h by simp
qed

text \<open>
  The rounding shows at contrast 2.1 on sample 15: the single-precision product is just
  below 31.5 and gives 31, where exact arithmetic has the tie 31.5 and would give 32.
\<close>

lemma scale_abs_single_precision:
  "scale_abs muladd_f32 (21 / 10) 0 15 = 31" "scale_abs fma_f32 (21 / 10) 0 15 = 31"
  by code_simp+

lemma sample_bound: "int (unat (v :: sample)) \<le> 255"
proof -
  have "uint v < 2 ^ LENGTH(8)" by (rule unsigned_less)
  then show ?thesis by simp
qed

lemma saturate_cast_uchar_of_int:
  "0 \<le> m \<Longrightarrow> saturate_cast_uchar (of_int m) = word_of_int (min 255 m)"
  by (simp add: saturate_cast_uchar_def cvRound_of_int min_def)

lemma scale_abs_integral:
  assumes "exact_on_integers muladd" "\<bar>k\<bar> \<le> 2 ^ 15" "\<bar>b\<bar> \<le> 2 ^ 23"
  shows "scale_abs muladd (of_int k) (of_int b) v = word_of_int (min 255 \<bar>int (unat v) * k + b\<bar>)"
proof -
  let ?x = "int (unat v)"
  have x: "0 \<le> ?x" "?x \<le> 255" using sample_bound[of v] by simp_all
  have "\<bar>?x * k\<bar> = ?x * \<bar>k\<bar>" using x by (simp add: abs_mult)
  also have "\<dots> \<le> 255 * 2 ^ 15" using x assms(2) by (intro mult_mono) simp_all
  finally have p: "\<bar>?x * k\<bar> \<le> 255 * 2 ^ 15" .
  then have p1: "\<bar>?x * k\<bar> < 2 ^ 24" by simp
  have "\<bar>?x * k + b\<bar> \<le> \<bar>?x * k\<bar> + \<bar>b\<bar>" by (rule abs_triangle_ineq)
  with p assms(3) have p2: "\<bar>?x * k + b\<bar> < 2 ^ 24" by simp
  have k: "f32_round (of_int k) = of_int k"
    using assms(2) by (intro f32_round_of_int) simp
  have b: "f32_round (of_int b) = of_int b"
    using assms(3) by (intro f32_round_of_int) simp
  have "muladd (of_int ?x) (of_int k) (of_int b) = of_int (?x * k + b)"
    using assms(1) p1 p2 unfolding exact_on_integers_def by blast
  then have "muladd (real (unat v)) (f32_round (of_int k)) (f32_round (of_int b)) =
      of_int (?x * k + b)"
    by (simp only: k b of_int_of_nat_eq)
  then have "scale_abs muladd (of_int k) (of_int b) v = saturate_cast_uchar (of_int \<bar>?x * k + b\<bar>)"
    by (simp only: scale_abs_def of_int_abs)
  then show ?thesis by (simp only: saturate_cast_uchar_of_int[OF abs_ge_zero])
qed







lemma scale_abs_brighter:
  "scale_abs muladd_f32 1 50 v = word_of_int (min 255 (int (unat v) + 50))"
  using scale_abs_integral[OF muladd_f32_exact, of 1 50 v] by simp




section \<open>Resize\<close>

lemma raster_dims:
  assumes "0 < dw" "0 < dh"
  shows "wf_image (raster f dw dh)" "width (raster f dw dh) = dw" "height (raster f dw dh) = dh"
proof -
  have "wf_image (raster f dw dh) \<and> width (raster f dw dh) = dw \<and>
      height (raster f dw dh) = length (raster f dw dh)"
    using assms by (intro wf_imageI) (simp_all add: raster_def)
  then show "wf_image (raster f dw dh)" "width (raster f dw dh) = dw"
    "height (raster f dw dh) = dh"
    by (simp_all add: raster_def)
qed

lemma cv_resize_ok:
  assumes "0 < dw" "dw \<le> INT_MAX" "0 < dh" "dh \<le> INT_MAX"
    and "interp src (nat dw) (nat dh) = Some f"
  shows "cv_resize interp src (dw, dh) = Inr (Some (raster f (nat dw) (nat dh)))"
  using assms by (simp add: cv_resize_def INT_MAX_def)

lemma cv_resize_empty:
  assumes "\<not> (0 < dw \<and> 0 < dh)"
  shows "cv_resize interp src (dw, dh) = Inl CvError"
  using assms by (auto simp: cv_resize_def)

lemma cv_resize_Inr:
  assumes "cv_resize interp src (dw, dh) = Inr r"
  shows "0 < dw \<and> dw \<le> INT_MAX \<and> 0 < dh \<and> dh \<le> INT_MAX \<and>
    (\<exists>f. interp src (nat dw) (nat dh) = Some f \<and> r = Some (raster f (nat dw) (nat dh)))"
  using assms by (auto simp: cv_resize_def split: if_splits option.splits)

lemma resize_Some:
  assumes "original_reference p = Some orig"
  shows "resize interp pc p =
    (if true_div_overflows (int (width orig) * pc) \<or> true_div_overflows (int (height orig) * pc)
     then Inl OverflowError
     else cv_resize interp orig
            (int_div100 (int (width orig) * pc), int_div100 (int (height orig) * pc)))"
  using assms by (simp add: resize_def Let_def)

lemma no_overflow_if_int:
  assumes "0 < int_div100 x" "int_div100 x \<le> INT_MAX"
  shows "\<not> true_div_overflows x"
proof -
  have "0 \<le> x" using assms(1) by (cases "0 \<le> x") (simp_all add: int_div100_def)
  then have "x div 100 \<le> 2147483647" using assms(2) by (simp add: int_div100_def INT_MAX_def)
  then have "x < 214748364800" by linarith
  moreover have "(214748364800::int) < (2 ^ 1024 - 2 ^ 970) * 100" by simp
  ultimately show ?thesis using \<open>0 \<le> x\<close> by (simp add: true_div_overflows_def)
qed

lemma resize_Inr:
  assumes "original_reference p = Some orig" "resize interp pc p = Inr r"
  shows "cv_resize interp orig
      (int_div100 (int (width orig) * pc), int_div100 (int (height orig) * pc)) = Inr r"
  using assms(2) by (simp add: resize_Some[OF assms(1)] split: if_splits)

lemma resize_popup_nonzero:
  assumes "pc \<noteq> 0" "current_cv_image (processor s) = Some cur"
  shows "resize_popup interp (Some pc) s = process_with_loading (resize interp pc) s"
  using assms by (simp add: resize_popup_def)

lemma resize_popup_Inr:
  assumes "pc \<noteq> 0" "current_cv_image (processor s) = Some cur"
    "original_reference (processor s) = Some orig"
    "resize interp pc (processor s) = Inr (Some r)"
  shows "resize_popup interp (Some pc) s =
           (s\<lparr>history := (history s)\<lparr>undo_stack := undo_stack (history s) @ [cur], redo_stack := []\<rparr>,
              processor := (processor s)\<lparr>current_cv_image := Some r\<rparr>\<rparr>, Completed)"
proof -
  from assms(2,4) have "process_with_loading (resize interp pc) s =
      (s\<lparr>history := (history s)\<lparr>undo_stack := undo_stack (history s) @ [cur], redo_stack := []\<rparr>,
         processor := (processor s)\<lparr>current_cv_image := Some r\<rparr>\<rparr>, Completed)"
    by (rule process_with_loading_success)
  then show ?thesis by (simp only: resize_popup_nonzero[OF assms(1,2)])
qed

lemma resize_popup_Inl:
  assumes "pc \<noteq> 0" "current_cv_image (processor s) = Some cur"
    "original_reference (processor s) = Some orig"
    "resize interp pc (processor s) = Inl e"
  shows "resize_popup interp (Some pc) s = (s, Raised e)"
proof -
  from assms(2,4) have "process_with_loading (resize interp pc) s = (s, Raised e)"
    by (rule process_with_loading_raises)
  then show ?thesis by (simp only: resize_popup_nonzero[OF assms(1,2)])
qed

lemma int_div100_nonneg: "0 \<le> x \<Longrightarrow> int_div100 x = x div 100"
  by (simp add: int_div100_def)

lemma resize_popup_scaled:
  assumes "current_cv_image (processor s) = Some cur"
    and "original_reference (processor s) = Some orig"
    and "50 \<le> pct"
    and "0 < int (width orig) * pct div 100" and "int (width orig) * pct div 100 \<le> INT_MAX"
    and "0 < int (height orig) * pct div 100" and "int (height orig) * pct div 100 \<le> INT_MAX"
    and "interp orig (nat (int (width orig) * pct div 100))
           (nat (int (height orig) * pct div 100)) = Some f"
  shows "resize_popup interp (Some pct) s =
      (s\<lparr>history := (history s)\<lparr>undo_stack := undo_stack (history s) @ [cur], redo_stack := []\<rparr>,
         processor := (processor s)\<lparr>current_cv_image :=
           Some (raster f (nat (int (width orig) * pct div 100))
                  (nat (int (height orig) * pct div 100)))\<rparr>\<rparr>, Completed)"
proof -
  have nz: "pct \<noteq> 0" using assms(3) by auto
  have d: "int_div100 (int (width orig) * pct) = int (width orig) * pct div 100"
    "int_div100 (int (height orig) * pct) = int (height orig) * pct div 100"
    using assms(3) by (simp_all add: int_div100_nonneg)
  have c: "cv_resize interp orig
       (int_div100 (int (width orig) * pct), int_div100 (int (height orig) * pct)) =
     Inr (Some (raster f (nat (int (width orig) * pct div 100))
                  (nat (int (height orig) * pct div 100))))"
    by (simp only: d cv_resize_ok[where interp = interp and src = orig and f = f, OF assms(4-8)])
  have "\<not> true_div_overflows (int (width orig) * pct)"
    "\<not> true_div_overflows (int (height orig) * pct)"
    using assms(4-7) by (simp_all add: no_overflow_if_int d)
  then have "resize interp pct (processor s) =
     Inr (Some (raster f (nat (int (width orig) * pct div 100))
                  (nat (int (height orig) * pct div 100))))"
    by (simp add: resize_Some[OF assms(2)] c)
  with nz assms(1,2) show ?thesis by (rule resize_popup_Inr)
qed

lemma width_replicate: "0 < n \<Longrightarrow> width (replicate n r) = length r"
  by (cases n) (simp_all add: width_def)

lemma dims_200x100: "width img_200x100 = 200" "height img_200x100 = 100"
  by (simp_all add: img_200x100_def width_replicate height_def)

text \<open>
  Claim C4, as the code has it. For a percentage from 50 to 200 for which both
  \<open>floor(w * percent / 100)\<close> and \<open>floor(h * percent / 100)\<close> are at least 1 and fit a C
  integer, where \<open>w\<close> and \<open>h\<close> are the dimensions of the original buffer, and for which
  the resampler delivers, resize completes, and the new current buffer is the result of
  resampling the original buffer to exactly these dimensions, whatever the current buffer
  was before. A second resize is computed from the original again: its result is the
  original resampled to the dimensions that its own percentage gives on the original.
\<close>

theorem resize_from_original:
  assumes "original_reference (processor s) = Some orig"
    and "current_cv_image (processor s) = Some cur"
    and "50 \<le> pct" and "pct \<le> 200"
    and "0 < int (width orig) * pct div 100" and "int (width orig) * pct div 100 \<le> INT_MAX"
    and "0 < int (height orig) * pct div 100" and "int (height orig) * pct div 100 \<le> INT_MAX"
    and "interp orig (nat (int (width orig) * pct div 100))
           (nat (int (height orig) * pct div 100)) = Some f"
    and "50 \<le> pct'" and "pct' \<le> 200"
    and "0 < int (width orig) * pct' div 100" and "int (width orig) * pct' div 100 \<le> INT_MAX"
    and "0 < int (height orig) * pct' div 100" and "int (height orig) * pct' div 100 \<le> INT_MAX"
    and "interp orig (nat (int (width orig) * pct' div 100))
           (nat (int (height orig) * pct' div 100)) = Some f'"
  shows "resize_popup interp (Some pct) s =
      (s\<lparr>history := (history s)\<lparr>undo_stack := undo_stack (history s) @ [cur], redo_stack := []\<rparr>,
         processor := (processor s)\<lparr>current_cv_image :=
           Some (raster f (nat (int (width orig) * pct div 100))
                  (nat (int (height orig) * pct div 100)))\<rparr>\<rparr>, Completed) \<and>
    int (width (raster f (nat (int (width orig) * pct div 100))
                  (nat (int (height orig) * pct div 100)))) = int (width orig) * pct div 100 \<and>
    int (height (raster f (nat (int (width orig) * pct div 100))
                  (nat (int (height orig) * pct div 100)))) = int (height orig) * pct div 100 \<and>
    snd (resize_popup interp (Some pct') (fst (resize_popup interp (Some pct) s))) = Completed \<and>
    current_cv_image (processor
      (fst (resize_popup interp (Some pct') (fst (resize_popup interp (Some pct) s))))) =
      Some (raster f' (nat (int (width orig) * pct' div 100))
             (nat (int (height orig) * pct' div 100))) \<and>
    int (width (raster f' (nat (int (width orig) * pct' div 100))
                  (nat (int (height orig) * pct' div 100)))) = int (width orig) * pct' div 100 \<and>
    int (height (raster f' (nat (int (width orig) * pct' div 100))
                  (nat (int (height orig) * pct' div 100)))) = int (height orig) * pct' div 100"
proof -
  let ?r = "raster f (nat (int (width orig) * pct div 100)) (nat (int (height orig) * pct div 100))"
  let ?r' = "raster f' (nat (int (width orig) * pct' div 100))
      (nat (int (height orig) * pct' div 100))"
  have 1: "resize_popup interp (Some pct) s =
      (s\<lparr>history := (history s)\<lparr>undo_stack := undo_stack (history s) @ [cur], redo_stack := []\<rparr>,
         processor := (processor s)\<lparr>current_cv_image := Some ?r\<rparr>\<rparr>, Completed)"
    using assms(2,1,3,5-9) by (rule resize_popup_scaled)
  let ?s1 = "fst (resize_popup interp (Some pct) s)"
  have c1: "current_cv_image (processor ?s1) = Some ?r"
    and o1: "original_reference (processor ?s1) = Some orig"
    using assms(1) by (simp_all add: 1)
  have 2: "resize_popup interp (Some pct') ?s1 =
      (?s1\<lparr>history := (history ?s1)\<lparr>undo_stack := undo_stack (history ?s1) @ [?r],
           redo_stack := []\<rparr>,
         processor := (processor ?s1)\<lparr>current_cv_image := Some ?r'\<rparr>\<rparr>, Completed)"
    using c1 o1 assms(10,12-16) by (rule resize_popup_scaled)
  have 3: "snd (resize_popup interp (Some pct') ?s1) = Completed"
    "current_cv_image (processor (fst (resize_popup interp (Some pct') ?s1))) = Some ?r'"
    by (simp_all add: 2)
  have 4: "int (width ?r) = int (width orig) * pct div 100"
    "int (height ?r) = int (height orig) * pct div 100"
    using assms(5,7) by (simp_all add: raster_dims)
  have 5: "int (width ?r') = int (width orig) * pct' div 100"
    "int (height ?r') = int (height orig) * pct' div 100"
    using assms(12,14) by (simp_all add: raster_dims)
  from 1 4 3 5 show ?thesis by (intro conjI)
qed

theorem resize_from_original_witness:
  "original_reference (processor app_200x100) = Some img_200x100 \<and>
   current_cv_image (processor app_200x100) = Some img_200x100 \<and>
   width img_200x100 = 200 \<and> height img_200x100 = 100 \<and>
   nearest img_200x100 300 150 = Some (nearest_px img_200x100 300 150) \<and>
   nearest img_200x100 150 75 = Some (nearest_px img_200x100 150 75) \<and>
   current_cv_image (processor (fst (resize_popup nearest (Some 150) app_200x100))) =
     Some (raster (nearest_px img_200x100 300 150) 300 150) \<and>
   width (raster (nearest_px img_200x100 300 150) 300 150) = 300 \<and>
   height (raster (nearest_px img_200x100 300 150) 300 150) = 150 \<and>
   current_cv_image (processor
     (fst (resize_popup nearest (Some 75)
       (fst (resize_popup nearest (Some 150) app_200x100))))) =
     Some (raster (nearest_px img_200x100 150 75) 150 75) \<and>
   width (raster (nearest_px img_200x100 150 75) 150 75) = 150 \<and>
   height (raster (nearest_px img_200x100 150 75) 150 75) = 75"
proof -
  have h1: "original_reference (processor app_200x100) = Some img_200x100"
    and h2: "current_cv_image (processor app_200x100) = Some img_200x100"
    by (simp_all add: app_200x100_def)
  have p: "(50::int) \<le> 150" "(150::int) \<le> 200" "(50::int) \<le> 75" "(75::int) \<le> 200"
    by simp_all
  have q: "0 < int (width img_200x100) * 150 div 100"
    "int (width img_200x100) * 150 div 100 \<le> INT_MAX"
    "0 < int (height img_200x100) * 150 div 100"
    "int (height img_200x100) * 150 div 100 \<le> INT_MAX"
    "0 < int (width img_200x100) * 75 div 100"
    "int (width img_200x100) * 75 div 100 \<le> INT_MAX"
    "0 < int (height img_200x100) * 75 div 100"
    "int (height img_200x100) * 75 div 100 \<le> INT_MAX"
    by (simp_all add: dims_200x100 INT_MAX_def)
  have n: "nearest img_200x100 (nat (int (width img_200x100) * 150 div 100))
      (nat (int (height img_200x100) * 150 div 100)) =
      Some (nearest_px img_200x100 300 150)"
    "nearest img_200x100 (nat (int (width img_200x100) * 75 div 100))
      (nat (int (height img_200x100) * 75 div 100)) =
      Some (nearest_px img_200x100 150 75)"
    by (simp_all add: dims_200x100 nearest_def)
  have n': "nearest img_200x100 300 150 = Some (nearest_px img_200x100 300 150)"
    "nearest img_200x100 150 75 = Some (nearest_px img_200x100 150 75)"
    by (simp_all add: nearest_def)
  have e: "nat (int (width img_200x100) * 150 div 100) = 300"
    "nat (int (height img_200x100) * 150 div 100) = 150"
    "nat (int (width img_200x100) * 75 div 100) = 150"
    "nat (int (height img_200x100) * 75 div 100) = 75"
    by (simp_all add: dims_200x100)
  note t = resize_from_original [where interp = nearest and s = app_200x100 and orig = img_200x100
      and f = "nearest_px img_200x100 300 150" and f' = "nearest_px img_200x100 150 75",
      OF h1 h2 p(1,2) q(1-4) n(1) p(3,4) q(5-8) n(2), unfolded e]
  from t have a: "current_cv_image (processor (fst (resize_popup nearest (Some 150) app_200x100))) =
     Some (raster (nearest_px img_200x100 300 150) 300 150)"
    by simp
  from t have b: "current_cv_image (processor
     (fst (resize_popup nearest (Some 75)
       (fst (resize_popup nearest (Some 150) app_200x100))))) =
     Some (raster (nearest_px img_200x100 150 75) 150 75)"
    by blast
  have c: "width (raster (nearest_px img_200x100 300 150) 300 150) = 300"
    "height (raster (nearest_px img_200x100 300 150) 300 150) = 150"
    "width (raster (nearest_px img_200x100 150 75) 150 75) = 150"
    "height (raster (nearest_px img_200x100 150 75) 150 75) = 75"
    by (simp_all add: raster_dims)
  from h1 h2 dims_200x100 n' a c(1,2) b c(3,4) show ?thesis by (intro conjI)
qed

text \<open>
  Claim C4 as stated fails on an image one pixel wide or high: at 50 percent the computed
  size of a 1 by 1 original is 0 by 0, the resampler raises, and no buffer is produced.
\<close>

theorem resize_one_pixel_raises:
  "wf_image img_1x1 \<and> width img_1x1 = 1 \<and> height img_1x1 = 1 \<and>
   original_reference (processor app_1x1) = Some img_1x1 \<and>
   resize nearest 50 (processor app_1x1) = Inl CvError \<and>
   resize_popup nearest (Some 50) app_1x1 = (app_1x1, Raised CvError)"
  by (simp add: wf_image_def img_1x1_def width_def height_def app_1x1_def resize_popup_def
      process_with_loading_def resize_def int_div100_def cv_resize_def INT_MAX_def
      true_div_overflows_def)

lemma dims_img_a: "width img_a = 2" "height img_a = 2"
  by (simp_all add: img_a_def width_def height_def)

text \<open>
  A percentage of \<open>10^12\<close> on the 2 by 2 image gives a size beyond a C integer, which the
  resampler refuses.
\<close>

lemma resize_huge_percent:
  "resize_popup nearest (Some 1000000000000) app_loaded = (app_loaded, Raised CvError)"
  by (simp add: resize_popup_def process_with_loading_def resize_def app_loaded_def dims_img_a
      int_div100_def cv_resize_def INT_MAX_def true_div_overflows_def)

text \<open>
  Claim C10. For every percentage other than 0, \<^verbatim>\<open>resize_popup\<close> hands the request to
  \<^verbatim>\<open>resize\<close>, which computes the truncated sizes \<open>int(w * percent / 100)\<close> and
  \<open>int(h * percent / 100)\<close> from the original buffer and, unless the division itself
  overflows, calls the resampler with them; no range is tested. What happens next is what
  the resampler does with these sizes: when it returns a buffer, the edit completes with
  this buffer, which has these sizes, however far the percentage is from 50 to 200; when
  it raises, as it does on a size that is not positive, the error is its own and the
  session is unchanged.
\<close>

theorem resize_no_range_check:
  assumes "pc \<noteq> 0"
    and "current_cv_image (processor s) = Some cur"
    and "original_reference (processor s) = Some orig"
  shows "resize_popup interp (Some pc) s = process_with_loading (resize interp pc) s \<and>
    resize interp pc (processor s) =
      (if true_div_overflows (int (width orig) * pc) \<or> true_div_overflows (int (height orig) * pc)
       then Inl OverflowError
       else cv_resize interp orig
              (int_div100 (int (width orig) * pc), int_div100 (int (height orig) * pc))) \<and>
    (resize interp pc (processor s) = Inr (Some r) \<longrightarrow>
       resize_popup interp (Some pc) s =
           (s\<lparr>history := (history s)\<lparr>undo_stack := undo_stack (history s) @ [cur], redo_stack := []\<rparr>,
              processor := (processor s)\<lparr>current_cv_image := Some r\<rparr>\<rparr>, Completed) \<and>
       int (width r) = int_div100 (int (width orig) * pc) \<and>
       int (height r) = int_div100 (int (height orig) * pc)) \<and>
    (resize interp pc (processor s) = Inl e \<longrightarrow>
       resize_popup interp (Some pc) s = (s, Raised e)) \<and>
    (\<not> true_div_overflows (int (width orig) * pc) \<and>
     \<not> true_div_overflows (int (height orig) * pc) \<and>
     \<not> (0 < int_div100 (int (width orig) * pc) \<and> 0 < int_div100 (int (height orig) * pc)) \<longrightarrow>
       resize_popup interp (Some pc) s = (s, Raised CvError)) \<and>
    (0 < int_div100 (int (width orig) * pc) \<and> int_div100 (int (width orig) * pc) \<le> INT_MAX \<and>
     0 < int_div100 (int (height orig) * pc) \<and> int_div100 (int (height orig) * pc) \<le> INT_MAX \<and>
     interp orig (nat (int_div100 (int (width orig) * pc)))
       (nat (int_div100 (int (height orig) * pc))) = Some f \<longrightarrow>
       resize_popup interp (Some pc) s =
           (s\<lparr>history := (history s)\<lparr>undo_stack := undo_stack (history s) @ [cur], redo_stack := []\<rparr>,
              processor := (processor s)\<lparr>current_cv_image :=
                Some (raster f (nat (int_div100 (int (width orig) * pc)))
                       (nat (int_div100 (int (height orig) * pc))))\<rparr>\<rparr>, Completed))"
proof (intro conjI impI)
  let ?W = "int_div100 (int (width orig) * pc)"
  let ?H = "int_div100 (int (height orig) * pc)"
  show "resize_popup interp (Some pc) s = process_with_loading (resize interp pc) s"
    using assms(1,2) by (rule resize_popup_nonzero)
  show "resize interp pc (processor s) =
      (if true_div_overflows (int (width orig) * pc) \<or> true_div_overflows (int (height orig) * pc)
       then Inl OverflowError
       else cv_resize interp orig (?W, ?H))"
    using assms(3) by (rule resize_Some)
  {
    assume r: "resize interp pc (processor s) = Inr (Some r)"
    show "resize_popup interp (Some pc) s =
           (s\<lparr>history := (history s)\<lparr>undo_stack := undo_stack (history s) @ [cur], redo_stack := []\<rparr>,
              processor := (processor s)\<lparr>current_cv_image := Some r\<rparr>\<rparr>, Completed)"
      using assms r by (rule resize_popup_Inr)
    from cv_resize_Inr[OF resize_Inr[OF assms(3) r]] obtain g where
      g: "0 < ?W" "0 < ?H" "r = raster g (nat ?W) (nat ?H)"
      by auto
    show "int (width r) = ?W" using g by (simp add: raster_dims)
    show "int (height r) = ?H" using g by (simp add: raster_dims)
  }
  {
    assume "resize interp pc (processor s) = Inl e"
    with assms show "resize_popup interp (Some pc) s = (s, Raised e)"
      by (rule resize_popup_Inl)
  }
  {
    assume a: "\<not> true_div_overflows (int (width orig) * pc) \<and>
      \<not> true_div_overflows (int (height orig) * pc) \<and> \<not> (0 < ?W \<and> 0 < ?H)"
    then have "cv_resize interp orig (?W, ?H) = Inl CvError"
      by (intro cv_resize_empty) simp
    with a have "resize interp pc (processor s) = Inl CvError"
      by (simp add: resize_Some[OF assms(3)])
    with assms show "resize_popup interp (Some pc) s = (s, Raised CvError)"
      by (rule resize_popup_Inl)
  }
  {
    assume a: "0 < ?W \<and> ?W \<le> INT_MAX \<and> 0 < ?H \<and> ?H \<le> INT_MAX \<and>
      interp orig (nat ?W) (nat ?H) = Some f"
    then have "cv_resize interp orig (?W, ?H) = Inr (Some (raster f (nat ?W) (nat ?H)))"
      using cv_resize_ok[where interp = interp and src = orig and f = f and dw = "?W" and dh = "?H"]
      by blast
    moreover have "\<not> true_div_overflows (int (width orig) * pc)"
      "\<not> true_div_overflows (int (height orig) * pc)"
      using a by (simp_all add: no_overflow_if_int)
    ultimately have "resize interp pc (processor s) = Inr (Some (raster f (nat ?W) (nat ?H)))"
      by (simp add: resize_Some[OF assms(3)])
    with assms show "resize_popup interp (Some pc) s =
           (s\<lparr>history := (history s)\<lparr>undo_stack := undo_stack (history s) @ [cur], redo_stack := []\<rparr>,
              processor := (processor s)\<lparr>current_cv_image :=
                Some (raster f (nat ?W) (nat ?H))\<rparr>\<rparr>, Completed)"
      by (rule resize_popup_Inr)
  }
qed

theorem resize_no_range_check_witness:
  "(300::int) \<noteq> 0 \<and> (- 50::int) \<noteq> 0 \<and>
   current_cv_image (processor app_loaded) = Some img_a \<and>
   original_reference (processor app_loaded) = Some img_a \<and>
   int_div100 (int (width img_a) * 300) = 6 \<and> int_div100 (int (height img_a) * 300) = 6 \<and>
   resize nearest 300 (processor app_loaded) = Inr (Some (raster (nearest_px img_a 6 6) 6 6)) \<and>
   resize_popup nearest (Some 300) app_loaded =
     (app_loaded\<lparr>history := (history app_loaded)\<lparr>undo_stack := [img_a], redo_stack := []\<rparr>,
        processor := (processor app_loaded)\<lparr>current_cv_image :=
          Some (raster (nearest_px img_a 6 6) 6 6)\<rparr>\<rparr>, Completed) \<and>
   width (raster (nearest_px img_a 6 6) 6 6) = 6 \<and>
   height (raster (nearest_px img_a 6 6) 6 6) = 6 \<and>
   int_div100 (int (width img_a) * (- 50)) = - 1 \<and>
   resize nearest (- 50) (processor app_loaded) = Inl CvError \<and>
   resize_popup nearest (Some (- 50)) app_loaded = (app_loaded, Raised CvError) \<and>
   nearest img_a 6 6 = Some (nearest_px img_a 6 6) \<and>
   \<not> true_div_overflows (int (width img_a) * (- 50)) \<and>
   \<not> true_div_overflows (int (height img_a) * (- 50))"
proof -
  have h2: "current_cv_image (processor app_loaded) = Some img_a"
    and h3: "original_reference (processor app_loaded) = Some img_a"
    and u: "undo_stack (history app_loaded) = []"
    by (simp_all add: app_loaded_def history_init_def)
  have d: "int_div100 (int (width img_a) * 300) = 6" "int_div100 (int (height img_a) * 300) = 6"
    by (simp_all add: dims_img_a int_div100_def)
  have d': "int_div100 (int (width img_a) * (- 50)) = - 1"
    by (simp add: dims_img_a int_div100_def)
  have n: "(300::int) \<noteq> 0" "(- 50::int) \<noteq> 0" by simp_all
  have c: "resize nearest 300 (processor app_loaded) =
      Inr (Some (raster (nearest_px img_a 6 6) 6 6))"
    by (simp add: resize_def app_loaded_def dims_img_a int_div100_def cv_resize_def nearest_def
        INT_MAX_def true_div_overflows_def)
  have c': "resize nearest (- 50) (processor app_loaded) = Inl CvError"
    by (simp add: resize_def app_loaded_def dims_img_a int_div100_def cv_resize_def
        INT_MAX_def true_div_overflows_def)
  from resize_no_range_check [OF n(1) h2 h3, of nearest "raster (nearest_px img_a 6 6) 6 6"] c
  have a: "resize_popup nearest (Some 300) app_loaded =
     (app_loaded\<lparr>history := (history app_loaded)\<lparr>undo_stack :=
          undo_stack (history app_loaded) @ [img_a], redo_stack := []\<rparr>,
        processor := (processor app_loaded)\<lparr>current_cv_image :=
          Some (raster (nearest_px img_a 6 6) 6 6)\<rparr>\<rparr>, Completed)"
    "int (width (raster (nearest_px img_a 6 6) 6 6)) = int_div100 (int (width img_a) * 300)"
    "int (height (raster (nearest_px img_a 6 6) 6 6)) = int_div100 (int (height img_a) * 300)"
    by blast+
  from resize_no_range_check [OF n(2) h2 h3, of nearest _ CvError] c'
  have b: "resize_popup nearest (Some (- 50)) app_loaded = (app_loaded, Raised CvError)"
    by blast
  have a1: "resize_popup nearest (Some 300) app_loaded =
     (app_loaded\<lparr>history := (history app_loaded)\<lparr>undo_stack := [img_a], redo_stack := []\<rparr>,
        processor := (processor app_loaded)\<lparr>current_cv_image :=
          Some (raster (nearest_px img_a 6 6) 6 6)\<rparr>\<rparr>, Completed)"
    using a(1) by (simp add: u)
  have a2: "width (raster (nearest_px img_a 6 6) 6 6) = 6"
    "height (raster (nearest_px img_a 6 6) 6 6) = 6"
    using a(2,3) by (simp_all add: d)
  have o: "nearest img_a 6 6 = Some (nearest_px img_a 6 6)"
    "\<not> true_div_overflows (int (width img_a) * (- 50))"
    "\<not> true_div_overflows (int (height img_a) * (- 50))"
    by (simp_all add: nearest_def dims_img_a true_div_overflows_def)
  from n h2 h3 d c a1 a2 d' c' b o show ?thesis by (intro conjI)
qed

text \<open>
  Claim C10 as stated fails for a percentage so large that the division overflows: at
  \<open>10^400\<close> on the 2 by 2 image \<^verbatim>\<open>w * scale_percent / 100\<close> raises \<^verbatim>\<open>OverflowError\<close>, and
  the resampler is not reached.
\<close>

theorem resize_percent_overflows:
  "resize nearest (10 ^ 400) (processor app_loaded) = Inl OverflowError \<and>
   resize_popup nearest (Some (10 ^ 400)) app_loaded = (app_loaded, Raised OverflowError)"
  by (simp add: resize_popup_def process_with_loading_def resize_def app_loaded_def dims_img_a
      true_div_overflows_def)

end
